theory Spec2Isabelle
  imports Main
begin

section \<open>GNews: the feed client of \<^verbatim>\<open>gnews/gnews.py\<close>\<close>

text \<open>
  A shallow embedding of the class \<^verbatim>\<open>GNews\<close>: its constructor, the URL suffix, the
  website filter, the resolution of the links, the loop over a feed and the four
  queries. The download of a full article and the storage in a database are left out.

  Python \<^verbatim>\<open>str\<close> values are HOL strings; a character stands for a code point below 256,
  and the case mappings \<^verbatim>\<open>str.lower\<close> and \<^verbatim>\<open>str.upper\<close> are modelled on the ASCII
  letters, which is what URLs, hostnames and topic names are made of (every other
  character is left as it is). An exception is a value: an operation returns a
  \<open>fault\<close> or its result. What the program does to the world (the feed it parses, the
  HEAD requests it sends, the lines it logs) is recorded, in order, in a list of events
  that every operation takes and returns.

  A private method \<^verbatim>\<open>_name\<close> is called \<open>priv_name\<close>, an attribute \<^verbatim>\<open>self._name\<close> is the
  field \<open>self_name\<close>.
\<close>

subsection \<open>Strings\<close>

definition ascii_uppercase :: string where
  "ascii_uppercase = ''ABCDEFGHIJKLMNOPQRSTUVWXYZ''"

definition ascii_lowercase :: string where
  "ascii_lowercase = ''abcdefghijklmnopqrstuvwxyz''"

definition digits :: string where
  "digits = ''0123456789''"

text \<open>\<^verbatim>\<open>str.lower()\<close> and \<^verbatim>\<open>str.upper()\<close>, character by character.\<close>

definition char_lower :: "char \<Rightarrow> char" where
  "char_lower c = (case map_of (zip ascii_uppercase ascii_lowercase) c of None \<Rightarrow> c | Some l \<Rightarrow> l)"

definition char_upper :: "char \<Rightarrow> char" where
  "char_upper c = (case map_of (zip ascii_lowercase ascii_uppercase) c of None \<Rightarrow> c | Some u \<Rightarrow> u)"

definition str_lower :: "string \<Rightarrow> string" where
  "str_lower s = map char_lower s"

definition str_upper :: "string \<Rightarrow> string" where
  "str_upper s = map char_upper s"

text \<open>\<^verbatim>\<open>s.split(sep)\<close> for a separator of one character: the pieces between the
  separators, empty pieces kept, so that the empty string splits into one empty piece.\<close>

fun str_split :: "char \<Rightarrow> string \<Rightarrow> string list" where
  "str_split sep [] = [[]]"
| "str_split sep (c # cs) =
     (if c = sep then [] # str_split sep cs
      else (case str_split sep cs of [] \<Rightarrow> [[c]] | p # ps \<Rightarrow> (c # p) # ps))"

text \<open>\<^verbatim>\<open>sep.join(pieces)\<close>.\<close>

fun str_join :: "string \<Rightarrow> string list \<Rightarrow> string" where
  "str_join sep [] = []"
| "str_join sep [p] = p"
| "str_join sep (p # q # ps) = p @ sep @ str_join sep (q # ps)"

text \<open>\<^verbatim>\<open>needle in s\<close> on strings: \<open>needle\<close> occurs in \<open>s\<close> as a run of consecutive
  characters.\<close>

fun starts_with :: "string \<Rightarrow> string \<Rightarrow> bool" where
  "starts_with [] s = True"
| "starts_with (p # ps) [] = False"
| "starts_with (p # ps) (c # cs) = (p = c \<and> starts_with ps cs)"

fun str_contains :: "string \<Rightarrow> string \<Rightarrow> bool" where
  "str_contains needle [] = (needle = [])"
| "str_contains needle (c # cs) = (starts_with needle (c # cs) \<or> str_contains needle cs)"

text \<open>\<^verbatim>\<open>d.get(key, default)\<close> on a dictionary.\<close>

definition dict_get :: "('k \<rightharpoonup> 'v) \<Rightarrow> 'k \<Rightarrow> 'v \<Rightarrow> 'v" where
  "dict_get d k dflt = (case d k of None \<Rightarrow> dflt | Some v \<Rightarrow> v)"

subsection \<open>Regular expressions: the part of \<^verbatim>\<open>re\<close> the exclusion patterns use\<close>

text \<open>
  A pattern is read as Python's \<^verbatim>\<open>re\<close> reads it, for the syntax the exclusion patterns are
  written in: a character that is not special stands for itself, a dot for any character
  but a newline, parentheses group, a question mark and a star repeat the item before
  them, and a caret at the very start anchors the match where \<^verbatim>\<open>re.match\<close> begins anyway.
  \<open>re_compile\<close> returns \<open>None\<close> for every other pattern: one that \<^verbatim>\<open>re\<close> rejects (an
  unbalanced parenthesis, nothing to repeat), and one that uses syntax left out here
  (a dollar, a plus, a brace, a bracket, a bar, a backslash, a caret further on, a second
  repetition mark).
\<close>

datatype rx = Epsilon | Chr char | Dot | Seq rx rx | Opt rx | Star rx

definition re_special :: "char \<Rightarrow> bool" where
  "re_special c = (c \<in> set ''.^$*+?{}[]|()'' \<or> c = CHR 0x5C)"

definition seq :: "rx list \<Rightarrow> rx" where
  "seq rs = foldr Seq rs Epsilon"

text \<open>One pass over the pattern: \<open>cur\<close> holds the items of the group being read, last
  first, \<open>stack\<close> the groups left open around it, and \<open>q\<close> says whether the last item may
  take a repetition mark.\<close>

fun re_parse :: "string \<Rightarrow> rx list \<Rightarrow> rx list list \<Rightarrow> bool \<Rightarrow> rx option" where
  "re_parse [] cur stack q = (if stack = [] then Some (seq (rev cur)) else None)"
| "re_parse (c # cs) cur stack q =
     (if c = CHR ''('' then re_parse cs [] (cur # stack) False
      else if c = CHR '')'' then
        (case stack of [] \<Rightarrow> None | outer # stack' \<Rightarrow> re_parse cs (seq (rev cur) # outer) stack' True)
      else if c = CHR ''?'' then
        (case cur of [] \<Rightarrow> None | r # rs \<Rightarrow> if q then re_parse cs (Opt r # rs) stack False else None)
      else if c = CHR ''*'' then
        (case cur of [] \<Rightarrow> None | r # rs \<Rightarrow> if q then re_parse cs (Star r # rs) stack False else None)
      else if c = CHR ''.'' then re_parse cs (Dot # cur) stack True
      else if re_special c then None
      else re_parse cs (Chr c # cur) stack True)"

definition re_compile :: "string \<Rightarrow> rx option" where
  "re_compile pattern =
     (case pattern of [] \<Rightarrow> re_parse [] [] [] False
      | c # cs \<Rightarrow> if c = CHR ''^'' then re_parse cs [] [] False else re_parse pattern [] [] False)"

text \<open>\<open>rests r s\<close>: what is left of \<open>s\<close> after \<open>r\<close> has matched at its start, one entry for
  each way to match. A repetition goes round again only after a round that used up some
  of the text, so \<open>length s\<close> rounds are enough.\<close>

fun star_rests :: "(string \<Rightarrow> string list) \<Rightarrow> nat \<Rightarrow> string \<Rightarrow> string list" where
  "star_rests f 0 s = [s]"
| "star_rests f (Suc n) s =
     concat (map (star_rests f n) (filter (\<lambda>t. length t < length s) (f s))) @ [s]"

primrec rests :: "rx \<Rightarrow> string \<Rightarrow> string list" where
  "rests Epsilon = (\<lambda>s. [s])"
| "rests (Chr c) = (\<lambda>s. case s of [] \<Rightarrow> [] | x # xs \<Rightarrow> if x = c then [xs] else [])"
| "rests Dot = (\<lambda>s. case s of [] \<Rightarrow> [] | x # xs \<Rightarrow> if x = CHR 0x0A then [] else [xs])"
| "rests (Seq a b) = (\<lambda>s. concat (map (rests b) (rests a s)))"
| "rests (Opt a) = (\<lambda>s. rests a s @ [s])"
| "rests (Star a) = (\<lambda>s. star_rests (rests a) (length s) s)"

text \<open>The strings a pattern stands for, as a set: \<open>rests\<close> computes exactly the ways to
  split off one of them at the start of the text (lemma \<open>rests_lang\<close> below).\<close>

inductive_set star :: "string set \<Rightarrow> string set" for A :: "string set" where
  star_empty: "[] \<in> star A"
| star_more: "p \<in> A \<Longrightarrow> q \<in> star A \<Longrightarrow> p @ q \<in> star A"

primrec lang :: "rx \<Rightarrow> string set" where
  "lang Epsilon = {[]}"
| "lang (Chr c) = {[c]}"
| "lang Dot = {[c] | c. c \<noteq> CHR 0x0A}"
| "lang (Seq a b) = {p @ q | p q. p \<in> lang a \<and> q \<in> lang b}"
| "lang (Opt a) = insert [] (lang a)"
| "lang (Star a) = star (lang a)"

text \<open>Why an operation has no result. \<open>Pattern_fault\<close>: \<^verbatim>\<open>re.match\<close> was given a pattern
  that \<open>re_compile\<close> does not read, one that \<^verbatim>\<open>re\<close> rejects with \<^verbatim>\<open>re.error\<close> or one in
  syntax left out above; nothing is stated about the program on such a pattern but that
  the model stops there. \<open>Request_exception\<close>: a \<^verbatim>\<open>requests\<close> call raised instead of
  returning a response.\<close>

datatype fault = Pattern_fault | Request_exception

text \<open>\<^verbatim>\<open>re.match(pattern, string)\<close>, as the truth value of its result: whether the pattern
  matches at the start of the string.\<close>

definition re_match :: "string \<Rightarrow> string \<Rightarrow> fault + bool" where
  "re_match pattern s =
     (case re_compile pattern of None \<Rightarrow> Inl Pattern_fault | Some r \<Rightarrow> Inr (rests r s \<noteq> []))"

subsection \<open>The world outside: the feed parser, HTTP and the HTML parser\<close>

text \<open>A feed entry is a dictionary. \<^verbatim>\<open>feedparser.parse(url).entries\<close> and
  \<^verbatim>\<open>requests.head(url)\<close> may answer differently as time goes by: they are given the events
  so far. A HEAD request raises or returns a response, of which the program reads the
  \<^verbatim>\<open>location\<close> header.\<close>

type_synonym entry = "string \<rightharpoonup> string"

type_synonym news_item = "(string \<times> string) list"

datatype event = Feed_parse string | Head_request string | Log_info string | Log_warning string

datatype head_result = Head_raises | Head_response "string option"

record world =
  feedparser_entries :: "event list \<Rightarrow> string \<Rightarrow> entry list"
  requests_head :: "event list \<Rightarrow> string \<Rightarrow> head_result"
  soup_get_text :: "string \<Rightarrow> string"

definition TOPICS :: "string list" where
  "TOPICS = [''WORLD'', ''NATION'', ''BUSINESS'', ''TECHNOLOGY'', ''ENTERTAINMENT'', ''SPORTS'',
             ''SCIENCE'', ''HEALTH'']"

subsection \<open>The configuration: the attributes of a \<^verbatim>\<open>GNews\<close> object\<close>

record gnews =
  self_max_results :: int
  self_language :: string
  self_country :: string
  self_exclude_website_regexes :: "string list"
  self_period :: "string option"
  self_BASE_URL :: string

text \<open>\<^verbatim>\<open>__init__\<close>: each excluded website becomes the pattern
  \<^verbatim>\<open>'^http(s)?://(www.)?' + website.lower() + '.*'\<close>. The language and the country are
  stored as given. (The attributes \<^verbatim>\<open>countries\<close> and \<^verbatim>\<open>languages\<close>, which no method reads,
  and the setters of the language and the country, which look their argument up in
  tables kept in another module, are left out.)\<close>

definition exclude_regex :: "string \<Rightarrow> string" where
  "exclude_regex website = ''^http(s)?://(www.)?'' @ str_lower website @ ''.*''"

definition GNews :: "string \<Rightarrow> string \<Rightarrow> int \<Rightarrow> string option \<Rightarrow> string list option \<Rightarrow> gnews" where
  "GNews language country max_results period exclude_websites =
     (let exclude_websites = (case exclude_websites of None \<Rightarrow> [] | Some ws \<Rightarrow> ws)
      in \<lparr> self_max_results = max_results,
           self_language = language,
           self_country = country,
           self_exclude_website_regexes = map exclude_regex exclude_websites,
           self_period = period,
           self_BASE_URL = ''https://news.google.com/rss'' \<rparr>)"

text \<open>The setters that store their argument as it is.\<close>

definition set_max_results :: "gnews \<Rightarrow> int \<Rightarrow> gnews" where
  "set_max_results self sz = self\<lparr>self_max_results := sz\<rparr>"

definition set_period :: "gnews \<Rightarrow> string option \<Rightarrow> gnews" where
  "set_period self period = self\<lparr>self_period := period\<rparr>"

text \<open>The truth value of \<^verbatim>\<open>self._period\<close>: \<^verbatim>\<open>None\<close> and the empty string are false.\<close>

definition truthy :: "string option \<Rightarrow> bool" where
  "truthy v = (case v of None \<Rightarrow> False | Some s \<Rightarrow> s \<noteq> [])"

text \<open>\<^verbatim>\<open>_ceid\<close>: the period and locale suffix of every request URL.\<close>

definition priv_ceid :: "gnews \<Rightarrow> string" where
  "priv_ceid self =
     (if truthy (self_period self) then
        ''when%3A'' @ the (self_period self) @ ''&ceid='' @ self_country self @ '':'' @ self_language self
          @ ''&hl='' @ self_language self @ ''&gl='' @ self_country self
      else
        ''&ceid='' @ self_country self @ '':'' @ self_language self
          @ ''&hl='' @ self_language self @ ''&gl='' @ self_country self)"

subsection \<open>The operations\<close>

text \<open>\<^verbatim>\<open>_clean\<close>: the text of the HTML, with every no-break space replaced by a space.\<close>

definition priv_clean :: "world \<Rightarrow> string \<Rightarrow> string" where
  "priv_clean w html =
     (let text = soup_get_text w html
      in map (\<lambda>c. if c = CHR 0xA0 then CHR '' '' else c) text)"

text \<open>\<^verbatim>\<open>_get_url\<close>: a link that contains \<^verbatim>\<open>news.google.com\<close> is resolved by a HEAD request.
  The call is not guarded: when it raises, so does \<^verbatim>\<open>_get_url\<close>.\<close>

definition priv_get_url :: "world \<Rightarrow> entry \<Rightarrow> event list \<Rightarrow> (fault + string) \<times> event list" where
  "priv_get_url w item tr =
     (let url = dict_get item ''link'' ''''
      in if str_contains ''news.google.com'' url then
           (case requests_head w tr url of
              Head_raises \<Rightarrow> (Inl Request_exception, tr @ [Head_request url])
            | Head_response headers \<Rightarrow>
                (Inr (case headers of None \<Rightarrow> url | Some location \<Rightarrow> location),
                 tr @ [Head_request url]))
         else (Inr url, tr))"

text \<open>\<^verbatim>\<open>_process\<close>: the news item, a dictionary with five keys.\<close>

definition priv_process :: "world \<Rightarrow> entry \<Rightarrow> string \<Rightarrow> news_item" where
  "priv_process w item url =
     (let title = dict_get item ''title'' ''''
      in [(''title'', title),
          (''description'', priv_clean w (dict_get item ''description'' '''')),
          (''published date'', dict_get item ''published'' ''''),
          (''url'', url),
          (''publisher'', dict_get item ''source'' '' '')])"

text \<open>\<^verbatim>\<open>is_allowed_website\<close>: the list comprehension matches every pattern (so that a
  pattern that raises does so whatever the others say), then \<^verbatim>\<open>all\<close> joins the results.\<close>

fun not_matches :: "string list \<Rightarrow> string \<Rightarrow> fault + bool list" where
  "not_matches [] url = Inr []"
| "not_matches (website # websites) url =
     (case re_match website url of
        Inl e \<Rightarrow> Inl e
      | Inr m \<Rightarrow> (case not_matches websites url of Inl e \<Rightarrow> Inl e | Inr bs \<Rightarrow> Inr ((\<not> m) # bs)))"

definition is_allowed_website :: "string \<Rightarrow> string list \<Rightarrow> fault + bool" where
  "is_allowed_website url blacklisted_websites =
     (case not_matches blacklisted_websites url of Inl e \<Rightarrow> Inl e | Inr bs \<Rightarrow> Inr (list_all id bs))"

text \<open>\<^verbatim>\<open>_get_news\<close>: the loop over the entries of the feed, in feed order, and the method
  itself, which parses the feed first.\<close>

fun priv_get_news_loop ::
  "world \<Rightarrow> gnews \<Rightarrow> entry list \<Rightarrow> news_item list \<Rightarrow> event list \<Rightarrow> (fault + news_item list) \<times> event list" where
  "priv_get_news_loop w self [] news tr = (Inr news, tr)"
| "priv_get_news_loop w self (entry # entries) news tr =
     (case priv_get_url w entry tr of
        (Inl e, tr') \<Rightarrow> (Inl e, tr')
      | (Inr url, tr') \<Rightarrow>
          (case is_allowed_website url (self_exclude_website_regexes self) of
             Inl e \<Rightarrow> (Inl e, tr')
           | Inr allowed \<Rightarrow>
               if allowed then priv_get_news_loop w self entries (news @ [priv_process w entry url]) tr'
               else priv_get_news_loop w self entries news tr'))"

definition priv_get_news :: "world \<Rightarrow> gnews \<Rightarrow> string \<Rightarrow> event list \<Rightarrow> (fault + news_item list) \<times> event list" where
  "priv_get_news w self url tr =
     priv_get_news_loop w self (feedparser_entries w tr url) [] (tr @ [Feed_parse url])"

text \<open>\<^verbatim>\<open>get_news\<close>: with an empty key the method falls off its end and returns \<^verbatim>\<open>None\<close>.\<close>

definition get_news :: "world \<Rightarrow> gnews \<Rightarrow> string \<Rightarrow> event list \<Rightarrow> (fault + news_item list option) \<times> event list" where
  "get_news w self key tr =
     (if key \<noteq> [] then
        (let key = str_join ''%20'' (str_split CHR '' '' key);
             url = self_BASE_URL self @ ''/search?q='' @ key @ priv_ceid self
         in case priv_get_news w self url tr of
              (Inl e, tr') \<Rightarrow> (Inl e, tr')
            | (Inr news, tr') \<Rightarrow> (Inr (Some news), tr'))
      else (Inr None, tr))"

definition get_top_news :: "world \<Rightarrow> gnews \<Rightarrow> event list \<Rightarrow> (fault + news_item list) \<times> event list" where
  "get_top_news w self tr =
     (let url = self_BASE_URL self @ ''?'' @ priv_ceid self
      in priv_get_news w self url tr)"

definition get_news_by_topic :: "world \<Rightarrow> gnews \<Rightarrow> string \<Rightarrow> event list \<Rightarrow> (fault + news_item list) \<times> event list" where
  "get_news_by_topic w self topic tr =
     (let topic = str_upper topic
      in if topic \<in> set TOPICS then
           (let url = self_BASE_URL self @ ''/headlines/section/topic/'' @ topic @ ''?'' @ priv_ceid self
            in priv_get_news w self url tr)
         else
           (Inr [],
            tr @ [Log_info (''Invalid topic. '' @ [CHR 0x0A] @ ''Available topics are: ''
                              @ str_join '', '' TOPICS @ ''.'')]))"

definition get_news_by_location :: "world \<Rightarrow> gnews \<Rightarrow> string \<Rightarrow> event list \<Rightarrow> (fault + news_item list) \<times> event list" where
  "get_news_by_location w self location tr =
     (if location \<noteq> [] then
        (let url = self_BASE_URL self @ ''/headlines/section/geo/'' @ location @ ''?'' @ priv_ceid self
         in priv_get_news w self url tr)
      else (Inr [], tr @ [Log_warning ''Enter a valid location.'']))"

subsection \<open>Notions the statements use\<close>

text \<open>A hostname is written with ASCII letters, digits, hyphens and dots.\<close>

definition hostname_char :: "char \<Rightarrow> bool" where
  "hostname_char c = (c \<in> set (ascii_lowercase @ ascii_uppercase @ digits @ ''-.''))"

text \<open>\<open>excluded_form h u\<close>: the URL \<open>u\<close> is \<^verbatim>\<open>http://\<close> or \<^verbatim>\<open>https://\<close>, then nothing or
  \<^verbatim>\<open>www\<close> and one more character, then a text that agrees with \<open>h\<close> at every character of
  \<open>h\<close> that is not a dot, then anything.\<close>

definition excluded_form :: "string \<Rightarrow> string \<Rightarrow> bool" where
  "excluded_form h u =
     (\<exists>scheme w m rest. u = scheme @ w @ m @ rest
        \<and> (scheme = ''http://'' \<or> scheme = ''https://'')
        \<and> (w = [] \<or> (\<exists>c. w = ''www'' @ [c]))
        \<and> list_all2 (\<lambda>p c. p = CHR ''.'' \<or> c = p) h m)"

text \<open>A news item passes the filter of a configuration: its \<^verbatim>\<open>url\<close> is allowed by the
  exclusion patterns.\<close>

definition passes_filter :: "gnews \<Rightarrow> news_item \<Rightarrow> bool" where
  "passes_filter self item =
     (\<exists>url. map_of item ''url'' = Some url
        \<and> is_allowed_website url (self_exclude_website_regexes self) = Inr True)"


text \<open>A feed of three entries, a world that serves it and answers every HEAD request
  without a \<^verbatim>\<open>location\<close> header, the same world with every HEAD request raising, and a
  configuration that excludes \<^verbatim>\<open>example.com\<close> and sets \<^verbatim>\<open>max_results\<close> to 1.\<close>

definition example_entries :: "entry list" where
  "example_entries =
     [[''title'' \<mapsto> ''First'', ''link'' \<mapsto> ''https://news.google.com/rss/articles/1''],
      [''title'' \<mapsto> ''Second'', ''link'' \<mapsto> ''https://www.example.com/second''],
      [''title'' \<mapsto> ''Third'', ''link'' \<mapsto> ''https://example.org/third'']]"

definition example_world :: world where
  "example_world =
     \<lparr> feedparser_entries = (\<lambda>tr url. example_entries),
       requests_head = (\<lambda>tr url. Head_response None),
       soup_get_text = (\<lambda>html. html) \<rparr>"


definition example_config :: gnews where
  "example_config = GNews ''en'' ''US'' 1 None (Some [''example.com''])"

subsection \<open>The exclusion pattern, read piece by piece\<close>

text \<open>What the proofs about the exclusion patterns use: the items of a hostname (a dot
  is the wildcard), the items of \<^verbatim>\<open>http(s)?://(www.)?\<close>, and what a compiled exclusion
  pattern accepts, stated on the URL.\<close>

definition wild :: "char \<Rightarrow> char \<Rightarrow> bool" where
  "wild p c = (if p = CHR ''.'' then c \<noteq> CHR 0x0A else c = p)"

definition host_atom :: "char \<Rightarrow> rx" where
  "host_atom c = (if c = CHR ''.'' then Dot else Chr c)"

definition prefix_atoms :: "rx list" where
  "prefix_atoms = map Chr ''http'' @ [Opt (seq (map Chr ''s''))] @ map Chr ''://''
                    @ [Opt (seq (map Chr ''www'' @ [Dot]))]"

definition matches :: "rx list \<Rightarrow> string \<Rightarrow> bool" where
  "matches rs s = (rests (seq rs) s \<noteq> [])"

definition host_here :: "string \<Rightarrow> string \<Rightarrow> bool" where
  "host_here h s = (\<exists>m s'. s = m @ s' \<and> list_all2 wild h m)"

definition www_here :: "string \<Rightarrow> string \<Rightarrow> bool" where
  "www_here h s = ((\<exists>c t. s = ''www'' @ c # t \<and> c \<noteq> CHR 0x0A \<and> host_here h t) \<or> host_here h s)"

definition url_excluded :: "string \<Rightarrow> string \<Rightarrow> bool" where
  "url_excluded h u =
     (\<exists>scheme w m rest. u = scheme @ w @ m @ rest
        \<and> (scheme = ''http://'' \<or> scheme = ''https://'')
        \<and> (w = [] \<or> (\<exists>c. w = ''www'' @ [c] \<and> c \<noteq> CHR 0x0A))
        \<and> list_all2 wild h m)"

section \<open>Lemmas\<close>

subsection \<open>Strings\<close>

lemma starts_with_iff: "starts_with p s \<longleftrightarrow> (\<exists>t. s = p @ t)"
  by (induction p s rule: starts_with.induct) auto

lemma str_contains_iff: "str_contains needle s \<longleftrightarrow> (\<exists>ps ss. s = ps @ needle @ ss)"
proof (induction s)
  case Nil
  then show ?case by auto
next
  case (Cons c cs)
  show ?case
  proof
    assume "str_contains needle (c # cs)"
    then consider "starts_with needle (c # cs)" | "str_contains needle cs" by auto
    then show "\<exists>ps ss. c # cs = ps @ needle @ ss"
    proof cases
      case 1
      then obtain t where "c # cs = [] @ needle @ t" by (auto simp add: starts_with_iff)
      then show ?thesis by blast
    next
      case 2
      with Cons.IH obtain ps ss where "cs = ps @ needle @ ss" by blast
      then have "c # cs = (c # ps) @ needle @ ss" by simp
      then show ?thesis by blast
    qed
  next
    assume "\<exists>ps ss. c # cs = ps @ needle @ ss"
    then obtain ps ss where e: "c # cs = ps @ needle @ ss" by blast
    show "str_contains needle (c # cs)"
    proof (cases ps)
      case Nil
      with e have "starts_with needle (c # cs)" by (auto simp add: starts_with_iff)
      then show ?thesis by simp
    next
      case (Cons p ps')
      with e have "cs = ps' @ needle @ ss" by simp
      with Cons.IH have "str_contains needle cs" by blast
      then show ?thesis by simp
    qed
  qed
qed

lemma str_split_nonempty: "str_split sep s \<noteq> []"
  by (induction s) (auto split: list.split)

lemma str_join_Cons_head: "str_join sep ((c # p) # ps) = c # str_join sep (p # ps)"
  by (cases ps) simp_all

lemma str_join_Nil_head: "ps \<noteq> [] \<Longrightarrow> str_join sep ([] # ps) = sep @ str_join sep ps"
  by (cases ps) simp_all

lemma str_join_split:
  "str_join sep (str_split c s) = concat (map (\<lambda>x. if x = c then sep else [x]) s)"
proof (induction s)
  case Nil
  then show ?case by simp
next
  case (Cons x xs)
  obtain p ps where sp: "str_split c xs = p # ps"
    using str_split_nonempty [of c xs] by (cases "str_split c xs") auto
  show ?case
  proof (cases "x = c")
    case True
    then show ?thesis using Cons sp by (simp add: str_join_Nil_head)
  next
    case False
    then show ?thesis using Cons sp by (simp add: str_join_Cons_head)
  qed
qed

subsection \<open>The events of a query\<close>

lemma priv_get_url_trace: "\<exists>r evs. priv_get_url w item tr = (r, tr @ evs)"
  by (auto simp add: priv_get_url_def Let_def split: head_result.split)

lemma priv_get_news_loop_trace: "\<exists>r evs. priv_get_news_loop w self entries news tr = (r, tr @ evs)"
proof (induction entries arbitrary: news tr)
  case Nil
  then show ?case by simp
next
  case (Cons entry entries)
  obtain r evs where u: "priv_get_url w entry tr = (r, tr @ evs)"
    using priv_get_url_trace by blast
  show ?case
  proof (cases r)
    case (Inl e)
    with u show ?thesis by simp
  next
    case (Inr url)
    show ?thesis
    proof (cases "is_allowed_website url (self_exclude_website_regexes self)")
      case (Inl e)
      with u Inr show ?thesis by simp
    next
      case a: (Inr allowed)
      obtain r' evs' where
        "priv_get_news_loop w self entries (if allowed then news @ [priv_process w entry url] else news) (tr @ evs)
           = (r', (tr @ evs) @ evs')"
        using Cons.IH by blast
      with u Inr a show ?thesis by (cases allowed) auto
    qed
  qed
qed

lemma priv_get_news_trace: "\<exists>r evs. priv_get_news w self url tr = (r, tr @ Feed_parse url # evs)"
  using priv_get_news_loop_trace [of w self "feedparser_entries w tr url" "[]" "tr @ [Feed_parse url]"]
  by (auto simp add: priv_get_news_def)

subsection \<open>The loop of \<^verbatim>\<open>_get_news\<close>\<close>

lemma priv_process_url: "map_of (priv_process w entry url) ''url'' = Some url"
  by (simp add: priv_process_def)

lemma priv_get_news_loop_allowed:
  "priv_get_news_loop w self entries news tr = (Inr out, tr') \<Longrightarrow>
   list_all (passes_filter self) news \<Longrightarrow> list_all (passes_filter self) out"
proof (induction entries arbitrary: news tr)
  case Nil
  then show ?case by simp
next
  case (Cons entry entries)
  obtain r tr1 where u: "priv_get_url w entry tr = (r, tr1)"
    by (cases "priv_get_url w entry tr")
  show ?case
  proof (cases r)
    case (Inl e)
    with u Cons.prems show ?thesis by simp
  next
    case (Inr url)
    show ?thesis
    proof (cases "is_allowed_website url (self_exclude_website_regexes self)")
      case (Inl e)
      with u Inr Cons.prems show ?thesis by simp
    next
      case a: (Inr allowed)
      show ?thesis
      proof (cases allowed)
        case True
        with a have "passes_filter self (priv_process w entry url)"
          by (simp add: passes_filter_def priv_process_url)
        with Cons.prems(2) have "list_all (passes_filter self) (news @ [priv_process w entry url])"
          by simp
        moreover from u Inr a True Cons.prems(1)
        have "priv_get_news_loop w self entries (news @ [priv_process w entry url]) tr1 = (Inr out, tr')"
          by simp
        ultimately show ?thesis using Cons.IH by blast
      next
        case False
        with u Inr a Cons.prems(1)
        have "priv_get_news_loop w self entries news tr1 = (Inr out, tr')"
          by simp
        with Cons.prems(2) show ?thesis using Cons.IH by blast
      qed
    qed
  qed
qed

lemma priv_get_news_loop_max_results:
  "priv_get_news_loop w (self\<lparr>self_max_results := m\<rparr>) entries news tr
     = priv_get_news_loop w self entries news tr"
  by (induction entries arbitrary: news tr) (simp_all split: prod.split sum.split)

lemma priv_ceid_max_results: "priv_ceid (self\<lparr>self_max_results := m\<rparr>) = priv_ceid self"
  by (simp add: priv_ceid_def)

lemma priv_get_news_max_results:
  "priv_get_news w (self\<lparr>self_max_results := m\<rparr>) url tr = priv_get_news w self url tr"
  by (simp add: priv_get_news_def priv_get_news_loop_max_results)

lemma is_allowed_website_Nil: "is_allowed_website url [] = Inr True"
  by (simp add: is_allowed_website_def)

lemma priv_get_news_loop_no_exclusion:
  "self_exclude_website_regexes self = [] \<Longrightarrow>
   priv_get_news_loop w self entries news tr = (Inr out, tr') \<Longrightarrow>
   length out = length news + length entries"
proof (induction entries arbitrary: news tr)
  case Nil
  then show ?case by simp
next
  case (Cons entry entries)
  obtain r tr1 where u: "priv_get_url w entry tr = (r, tr1)"
    by (cases "priv_get_url w entry tr")
  show ?case
  proof (cases r)
    case (Inl e)
    with u Cons.prems show ?thesis by simp
  next
    case (Inr url)
    with u Cons.prems
    have "priv_get_news_loop w self entries (news @ [priv_process w entry url]) tr1 = (Inr out, tr')"
      by (simp add: is_allowed_website_Nil)
    with Cons.IH [OF Cons.prems(1)] show ?thesis by fastforce
  qed
qed






subsection \<open>The matcher and the strings a pattern stands for\<close>

lemma star_cases_nonempty:
  "p \<in> star A \<Longrightarrow> p = [] \<or> (\<exists>q r. q \<noteq> [] \<and> q \<in> A \<and> r \<in> star A \<and> p = q @ r)"
proof (induction rule: star.induct)
  case star_empty
  then show ?case by simp
next
  case (star_more p q)
  show ?case
  proof (cases "p = []")
    case True
    with star_more.IH show ?thesis by simp
  next
    case False
    with star_more.hyps show ?thesis by blast
  qed
qed

lemma star_rests_sound:
  assumes f: "\<And>s t. t \<in> set (f s) \<Longrightarrow> \<exists>p. p \<in> A \<and> s = p @ t"
  shows "t \<in> set (star_rests f n s) \<Longrightarrow> \<exists>p. p \<in> star A \<and> s = p @ t"
proof (induction n arbitrary: s)
  case 0
  then have "[] \<in> star A \<and> s = [] @ t" by (simp add: star_empty)
  then show ?case by blast
next
  case (Suc n)
  from Suc.prems consider "t = s" | m where "m \<in> set (f s)" "t \<in> set (star_rests f n m)"
    by auto
  then show ?case
  proof cases
    case 1
    then have "[] \<in> star A \<and> s = [] @ t" by (simp add: star_empty)
    then show ?thesis by blast
  next
    case 2
    from f [OF 2(1)] obtain p where p: "p \<in> A" "s = p @ m" by blast
    from Suc.IH [OF 2(2)] obtain q where q: "q \<in> star A" "m = q @ t" by blast
    from p q have "p @ q \<in> star A \<and> s = (p @ q) @ t" by (simp add: star_more)
    then show ?thesis by blast
  qed
qed

lemma star_rests_complete:
  assumes f: "\<And>s t p. p \<in> A \<Longrightarrow> s = p @ t \<Longrightarrow> t \<in> set (f s)"
  shows "p \<in> star A \<Longrightarrow> length p \<le> n \<Longrightarrow> t \<in> set (star_rests f n (p @ t))"
proof (induction n arbitrary: p)
  case 0
  then show ?case by simp
next
  case (Suc n)
  from star_cases_nonempty [OF Suc.prems(1)]
  consider "p = []" | q r where "q \<noteq> []" "q \<in> A" "r \<in> star A" "p = q @ r"
    by blast
  then show ?case
  proof cases
    case 1
    then show ?thesis by simp
  next
    case 2
    from 2(2) have m: "r @ t \<in> set (f (p @ t))"
      using f [of q "p @ t" "r @ t"] 2(4) by simp
    from 2(1,4) have shorter: "length (r @ t) < length (p @ t)" by simp
    from 2(1,4) Suc.prems(2) have "length r \<le> n" by (cases q) simp_all
    with Suc.IH [OF 2(3)] have "t \<in> set (star_rests f n (r @ t))" by blast
    with m shorter show ?thesis by auto
  qed
qed

lemma in_lang_Dot: "p \<in> lang Dot \<longleftrightarrow> (\<exists>c. p = [c] \<and> c \<noteq> CHR 0x0A)"
  by simp

lemma in_lang_Seq: "w \<in> lang (Seq a b) \<longleftrightarrow> (\<exists>p q. w = p @ q \<and> p \<in> lang a \<and> q \<in> lang b)"
  by simp

lemma rests_lang: "t \<in> set (rests r s) \<longleftrightarrow> (\<exists>p. p \<in> lang r \<and> s = p @ t)"
proof (induction r arbitrary: s t)
  case Epsilon
  show ?case by auto
next
  case (Chr c)
  show ?case by (cases s) auto
next
  case Dot
  show ?case
  proof
    assume "t \<in> set (rests Dot s)"
    then obtain c where "s = c # t" "c \<noteq> CHR 0x0A"
      by (cases s) (simp_all split: if_splits)
    then have "[c] \<in> lang Dot \<and> s = [c] @ t"
      by simp
    then show "\<exists>p. p \<in> lang Dot \<and> s = p @ t" ..
  next
    assume "\<exists>p. p \<in> lang Dot \<and> s = p @ t"
    then obtain p c where "p = [c]" "c \<noteq> CHR 0x0A" "s = p @ t"
      unfolding in_lang_Dot by blast
    then show "t \<in> set (rests Dot s)"
      by simp
  qed
next
  case (Seq a b)
  show ?case
  proof
    assume "t \<in> set (rests (Seq a b) s)"
    then obtain m where m: "m \<in> set (rests a s)" "t \<in> set (rests b m)"
      by auto
    from m(1) obtain p where p: "p \<in> lang a" "s = p @ m"
      unfolding Seq.IH by blast
    from m(2) obtain q where q: "q \<in> lang b" "m = q @ t"
      unfolding Seq.IH by blast
    from p q have "p @ q \<in> lang (Seq a b)"
      unfolding in_lang_Seq by blast
    moreover from p q have "s = (p @ q) @ t"
      by simp
    ultimately show "\<exists>p. p \<in> lang (Seq a b) \<and> s = p @ t"
      by blast
  next
    assume "\<exists>p. p \<in> lang (Seq a b) \<and> s = p @ t"
    then obtain w where w: "w \<in> lang (Seq a b)" "s = w @ t"
      by blast
    from w(1) obtain p q where pq: "w = p @ q" "p \<in> lang a" "q \<in> lang b"
      unfolding in_lang_Seq by blast
    from w pq have "s = p @ (q @ t)"
      by simp
    with pq(2) have "q @ t \<in> set (rests a s)"
      unfolding Seq.IH by blast
    moreover from pq(3) have "t \<in> set (rests b (q @ t))"
      unfolding Seq.IH by blast
    ultimately show "t \<in> set (rests (Seq a b) s)"
      by auto
  qed
next
  case (Opt a)
  have "t \<in> set (rests (Opt a) s) \<longleftrightarrow> t \<in> set (rests a s) \<or> t = s"
    by auto
  also have "\<dots> \<longleftrightarrow> (\<exists>p. p \<in> lang a \<and> s = p @ t) \<or> s = [] @ t"
    unfolding Opt.IH by auto
  also have "\<dots> \<longleftrightarrow> (\<exists>p. p \<in> lang (Opt a) \<and> s = p @ t)"
    by (simp only: lang.simps) blast
  finally show ?case .
next
  case (Star a)
  show ?case
  proof
    assume "t \<in> set (rests (Star a) s)"
    then have "t \<in> set (star_rests (rests a) (length s) s)"
      by simp
    moreover have "\<exists>p. p \<in> lang a \<and> s' = p @ t'" if "t' \<in> set (rests a s')" for s' t'
      using that Star.IH by blast
    ultimately have "\<exists>p. p \<in> star (lang a) \<and> s = p @ t"
      by (rule star_rests_sound [where f = "rests a" and A = "lang a", rotated])
    then show "\<exists>p. p \<in> lang (Star a) \<and> s = p @ t"
      by simp
  next
    assume "\<exists>p. p \<in> lang (Star a) \<and> s = p @ t"
    then obtain p where p: "p \<in> star (lang a)" "s = p @ t"
      by auto
    have step: "t' \<in> set (rests a s')" if "q \<in> lang a" "s' = q @ t'" for s' t' q
      using that Star.IH by blast
    from p have "length p \<le> length s"
      by simp
    from star_rests_complete [where A = "lang a" and f = "rests a", OF step p(1) this]
    have "t \<in> set (star_rests (rests a) (length s) (p @ t))" .
    with p show "t \<in> set (rests (Star a) s)"
      by simp
  qed
qed

lemma re_match_lang:
  assumes "re_compile pattern = Some r"
  shows "re_match pattern s = Inr (\<exists>p t. p \<in> lang r \<and> s = p @ t)"
proof -
  have "rests r s \<noteq> [] \<longleftrightarrow> (\<exists>t. t \<in> set (rests r s))"
    by (cases "rests r s") auto
  also have "\<dots> \<longleftrightarrow> (\<exists>p t. p \<in> lang r \<and> s = p @ t)"
    unfolding rests_lang by blast
  finally show ?thesis
    using assms by (simp add: re_match_def)
qed

subsection \<open>What an exclusion pattern compiles to\<close>

lemma hostname_chars_lower:
  "\<forall>c\<in>set (ascii_lowercase @ ascii_uppercase @ digits @ ''-.'').
     char_lower c = CHR ''.'' \<or> \<not> re_special (char_lower c)"
  by code_simp

lemma hostname_char_lower: "hostname_char c \<Longrightarrow> char_lower c = CHR ''.'' \<or> \<not> re_special (char_lower c)"
  using hostname_chars_lower unfolding hostname_char_def by blast

lemma re_parse_host:
  "\<forall>c\<in>set h. c = CHR ''.'' \<or> \<not> re_special c \<Longrightarrow>
   re_parse (h @ rest) cur stack q = re_parse rest (rev (map host_atom h) @ cur) stack (q \<or> h \<noteq> [])"
proof (induction h arbitrary: cur q)
  case Nil
  then show ?case by simp
next
  case (Cons c h)
  have nsp: "c \<noteq> CHR ''.'' \<Longrightarrow> c \<noteq> CHR ''('' \<and> c \<noteq> CHR '')'' \<and> c \<noteq> CHR ''?'' \<and> c \<noteq> CHR ''*'' \<and> \<not> re_special c"
    using Cons.prems by (auto simp add: re_special_def)
  show ?case
  proof (cases "c = CHR ''.''")
    case True
    then show ?thesis using Cons by (simp add: host_atom_def)
  next
    case False
    with nsp Cons show ?thesis by (simp add: host_atom_def)
  qed
qed

lemma re_compile_exclude_regex:
  assumes "list_all hostname_char website"
  shows "re_compile (exclude_regex website) =
           Some (seq (prefix_atoms @ map host_atom (str_lower website) @ [Star Dot]))"
proof -
  have ok: "\<forall>c\<in>set (str_lower website). c = CHR ''.'' \<or> \<not> re_special c"
    using assms hostname_char_lower by (auto simp add: str_lower_def list_all_iff)
  show ?thesis
    unfolding exclude_regex_def re_compile_def
    by (simp add: re_parse_host [OF ok] re_special_def prefix_atoms_def)
qed

subsection \<open>What a compiled exclusion pattern matches\<close>

lemma in_rests_Chr:
  "t \<in> set (rests (seq (Chr c # rs)) s) \<longleftrightarrow> (\<exists>s'. s = c # s' \<and> t \<in> set (rests (seq rs) s'))"
  by (cases s) (simp_all add: seq_def)

lemma in_rests_Dot:
  "t \<in> set (rests (seq (Dot # rs)) s) \<longleftrightarrow>
     (\<exists>c s'. s = c # s' \<and> c \<noteq> CHR 0x0A \<and> t \<in> set (rests (seq rs) s'))"
  by (cases s) (simp_all add: seq_def)

lemma in_rests_host_atom:
  "t \<in> set (rests (seq (host_atom p # rs)) s) \<longleftrightarrow>
     (\<exists>c s'. s = c # s' \<and> wild p c \<and> t \<in> set (rests (seq rs) s'))"
  by (simp add: host_atom_def wild_def in_rests_Chr in_rests_Dot)

lemma in_rests_lit:
  "t \<in> set (rests (seq (map Chr l @ rs)) s) \<longleftrightarrow> (\<exists>s'. s = l @ s' \<and> t \<in> set (rests (seq rs) s'))"
proof (induction l arbitrary: s)
  case Nil
  then show ?case by simp
next
  case (Cons c l)
  then show ?case by (auto simp add: in_rests_Chr)
qed

lemma in_rests_host:
  "t \<in> set (rests (seq (map host_atom h @ rs)) s) \<longleftrightarrow>
     (\<exists>m s'. s = m @ s' \<and> list_all2 wild h m \<and> t \<in> set (rests (seq rs) s'))"
proof (induction h arbitrary: s)
  case Nil
  then show ?case by simp
next
  case (Cons p h)
  show ?case
  proof
    assume "t \<in> set (rests (seq (map host_atom (p # h) @ rs)) s)"
    then obtain c s1 where s: "s = c # s1" and w: "wild p c"
      and t: "t \<in> set (rests (seq (map host_atom h @ rs)) s1)"
      by (auto simp add: in_rests_host_atom)
    from t Cons.IH obtain m s' where "s1 = m @ s'" "list_all2 wild h m" "t \<in> set (rests (seq rs) s')"
      by blast
    with s w have "s = (c # m) @ s' \<and> list_all2 wild (p # h) (c # m) \<and> t \<in> set (rests (seq rs) s')"
      by simp
    then show "\<exists>m s'. s = m @ s' \<and> list_all2 wild (p # h) m \<and> t \<in> set (rests (seq rs) s')"
      by blast
  next
    assume "\<exists>m s'. s = m @ s' \<and> list_all2 wild (p # h) m \<and> t \<in> set (rests (seq rs) s')"
    then obtain m s' where s: "s = m @ s'" and a: "list_all2 wild (p # h) m"
      and t: "t \<in> set (rests (seq rs) s')"
      by blast
    from a obtain c m1 where m: "m = c # m1" and w: "wild p c" and a1: "list_all2 wild h m1"
      by (auto simp add: list_all2_Cons1)
    from a1 t Cons.IH have "t \<in> set (rests (seq (map host_atom h @ rs)) (m1 @ s'))"
      by blast
    with s m w show "t \<in> set (rests (seq (map host_atom (p # h) @ rs)) s)"
      by (simp add: in_rests_host_atom)
  qed
qed

lemma star_rests_self: "s \<in> set (star_rests f n s)"
  by (cases n) simp_all

lemma matches_Star: "matches [Star a] s"
  using star_rests_self [of s "rests a" "length s"] by (auto simp add: matches_def seq_def)

lemma matches_iff: "matches rs s \<longleftrightarrow> (\<exists>t. t \<in> set (rests (seq rs) s))"
  by (cases "rests (seq rs) s") (auto simp add: matches_def)

lemma matches_lit: "matches (map Chr l @ rs) s \<longleftrightarrow> (\<exists>s'. s = l @ s' \<and> matches rs s')"
  unfolding matches_iff in_rests_lit by blast

lemma matches_Opt:
  "matches (Opt a # rs) s \<longleftrightarrow> (\<exists>m. m \<in> set (rests a s) \<and> matches rs m) \<or> matches rs s"
  unfolding matches_iff by (auto simp add: seq_def)

lemma matches_host: "matches (map host_atom h @ [Star a]) s \<longleftrightarrow> host_here h s"
  using matches_Star [of a] unfolding matches_iff in_rests_host host_here_def by blast

lemma rests_lit_only: "t \<in> set (rests (seq (map Chr l)) s) \<longleftrightarrow> s = l @ t"
  using in_rests_lit [of t l "[]" s] by (simp add: seq_def)

lemma rests_lit_Dot:
  "t \<in> set (rests (seq (map Chr l @ [Dot])) s) \<longleftrightarrow> (\<exists>c. s = l @ c # t \<and> c \<noteq> CHR 0x0A)"
  unfolding in_rests_lit in_rests_Dot by (auto simp add: seq_def)

lemma matches_www:
  "matches (Opt (seq (map Chr ''www'' @ [Dot])) # map host_atom h @ [Star Dot]) s \<longleftrightarrow> www_here h s"
  unfolding matches_Opt matches_host rests_lit_Dot www_here_def by blast

lemma matches_slashes:
  "matches (map Chr ''://'' @ Opt (seq (map Chr ''www'' @ [Dot])) # map host_atom h @ [Star Dot]) s
     \<longleftrightarrow> (\<exists>t. s = ''://'' @ t \<and> www_here h t)"
  unfolding matches_lit matches_www ..

lemma matches_s:
  "matches (Opt (seq (map Chr ''s'')) # map Chr ''://'' @ Opt (seq (map Chr ''www'' @ [Dot])) # map host_atom h @ [Star Dot]) s
     \<longleftrightarrow> (\<exists>t. s = ''s://'' @ t \<and> www_here h t) \<or> (\<exists>t. s = ''://'' @ t \<and> www_here h t)"
  unfolding matches_Opt matches_slashes rests_lit_only by auto

lemma matches_prefix_atoms:
  "matches (prefix_atoms @ map host_atom h @ [Star Dot]) u
     \<longleftrightarrow> (\<exists>t. u = ''https://'' @ t \<and> www_here h t) \<or> (\<exists>t. u = ''http://'' @ t \<and> www_here h t)"
  unfolding prefix_atoms_def append_assoc append_Cons append_Nil matches_lit matches_s by auto

lemma www_here_iff:
  "www_here h t \<longleftrightarrow>
     (\<exists>w m rest. t = w @ m @ rest \<and> (w = [] \<or> (\<exists>c. w = ''www'' @ [c] \<and> c \<noteq> CHR 0x0A)) \<and> list_all2 wild h m)"
proof
  assume "www_here h t"
  then consider (www) c t' m s' where "t = ''www'' @ c # t'" "c \<noteq> CHR 0x0A" "t' = m @ s'" "list_all2 wild h m"
    | (bare) m s' where "t = m @ s'" "list_all2 wild h m"
    unfolding www_here_def host_here_def by blast
  then show "\<exists>w m rest. t = w @ m @ rest \<and> (w = [] \<or> (\<exists>c. w = ''www'' @ [c] \<and> c \<noteq> CHR 0x0A)) \<and> list_all2 wild h m"
  proof cases
    case www
    then have "t = (''www'' @ [c]) @ m @ s' \<and> (\<exists>c'. ''www'' @ [c] = ''www'' @ [c'] \<and> c' \<noteq> CHR 0x0A) \<and> list_all2 wild h m"
      by simp
    then show ?thesis by blast
  next
    case bare
    then have "t = [] @ m @ s' \<and> list_all2 wild h m" by simp
    then show ?thesis by blast
  qed
next
  assume "\<exists>w m rest. t = w @ m @ rest \<and> (w = [] \<or> (\<exists>c. w = ''www'' @ [c] \<and> c \<noteq> CHR 0x0A)) \<and> list_all2 wild h m"
  then obtain w m rest where t: "t = w @ m @ rest"
    and w: "w = [] \<or> (\<exists>c. w = ''www'' @ [c] \<and> c \<noteq> CHR 0x0A)" and m: "list_all2 wild h m"
    by blast
  from m have hh: "host_here h (m @ rest)"
    unfolding host_here_def by blast
  from w show "www_here h t"
  proof
    assume "w = []"
    with t hh show ?thesis by (simp add: www_here_def)
  next
    assume "\<exists>c. w = ''www'' @ [c] \<and> c \<noteq> CHR 0x0A"
    then obtain c where "w = ''www'' @ [c]" "c \<noteq> CHR 0x0A" by blast
    with t have "t = ''www'' @ c # (m @ rest) \<and> c \<noteq> CHR 0x0A" by simp
    with hh show ?thesis unfolding www_here_def by blast
  qed
qed

lemma matches_exclude_pattern:
  "matches (prefix_atoms @ map host_atom h @ [Star Dot]) u \<longleftrightarrow> url_excluded h u"
proof -
  have "url_excluded h u \<longleftrightarrow> (\<exists>scheme t. u = scheme @ t \<and> (scheme = ''http://'' \<or> scheme = ''https://'') \<and> www_here h t)"
    unfolding url_excluded_def www_here_iff by blast
  also have "\<dots> \<longleftrightarrow> (\<exists>t. u = ''https://'' @ t \<and> www_here h t) \<or> (\<exists>t. u = ''http://'' @ t \<and> www_here h t)"
    by blast
  finally show ?thesis
    unfolding matches_prefix_atoms ..
qed

lemma re_match_exclude_regex:
  assumes "list_all hostname_char website"
  shows "re_match (exclude_regex website) url = Inr (url_excluded (str_lower website) url)"
  using matches_exclude_pattern [of "str_lower website" url]
  by (simp add: re_match_def re_compile_exclude_regex [OF assms] matches_def)

lemma not_matches_exclude_regex:
  "list_all (list_all hostname_char) websites \<Longrightarrow>
   not_matches (map exclude_regex websites) url
     = Inr (map (\<lambda>website. \<not> url_excluded (str_lower website) url) websites)"
  by (induction websites) (simp_all add: re_match_exclude_regex)

lemma is_allowed_website_exclude_regex:
  "list_all (list_all hostname_char) websites \<Longrightarrow>
   is_allowed_website url (map exclude_regex websites)
     = Inr (list_all (\<lambda>website. \<not> url_excluded (str_lower website) url) websites)"
  by (simp add: is_allowed_website_def not_matches_exclude_regex list_all_iff)

lemma GNews_regexes:
  "self_exclude_website_regexes (GNews language country max_results period (Some websites))
     = map exclude_regex websites"
  by (simp add: GNews_def)

lemma wild_same: "list_all2 wild h h"
  by (induction h) (simp_all add: wild_def)

lemma wild_loose: "list_all2 wild h m \<Longrightarrow> list_all2 (\<lambda>p c. p = CHR ''.'' \<or> c = p) h m"
  by (erule list_all2_mono) (auto simp add: wild_def split: if_splits)

lemma url_excluded_form: "url_excluded h u \<Longrightarrow> excluded_form h u"
  unfolding url_excluded_def excluded_form_def using wild_loose by blast

lemma url_excluded_literal:
  assumes "scheme = ''http://'' \<or> scheme = ''https://''" and "www = [] \<or> www = ''www.''"
  shows "url_excluded h (scheme @ www @ h @ rest)"
proof -
  have "www = [] \<or> (\<exists>c. www = ''www'' @ [c] \<and> c \<noteq> CHR 0x0A)"
    using assms(2) by auto
  with assms(1) wild_same [of h] show ?thesis
    unfolding url_excluded_def by blast
qed


subsection \<open>The examples, evaluated\<close>


lemma lower_example: "str_lower ''Example.com'' = ''example.com''"
  by code_simp

lemma hostname_example: "list_all (list_all hostname_char) [''Example.com'']"
  by code_simp

lemma not_excluded_form_example: "\<not> excluded_form ''example.com'' ''https://www.example.org/news''"
proof
  assume "excluded_form ''example.com'' ''https://www.example.org/news''"
  then obtain scheme w m rest where u: "''https://www.example.org/news'' = scheme @ w @ m @ rest"
    and s: "scheme = ''http://'' \<or> scheme = ''https://''"
    and w: "w = [] \<or> (\<exists>c. w = ''www'' @ [c])"
    and m: "list_all2 (\<lambda>p c. p = CHR ''.'' \<or> c = p) ''example.com'' m"
    unfolding excluded_form_def by blast
  from m obtain d where m': "m = ''example'' @ d # ''com''"
    by (auto simp add: list_all2_Cons1)
  from s u have t: "''www.example.org/news'' = w @ m @ rest"
    by auto
  from w show False
  proof
    assume "w = []"
    with t m' show False by simp
  next
    assume "\<exists>c. w = ''www'' @ [c]"
    then obtain c where "w = ''www'' @ [c]" by blast
    with t m' show False by simp
  qed
qed


lemma example_query:
  "priv_get_news example_world example_config ''https://news.google.com/rss?&ceid=US:en&hl=en&gl=US'' []
     = (Inr [[(''title'', ''First''), (''description'', ''''), (''published date'', ''''),
              (''url'', ''https://news.google.com/rss/articles/1''), (''publisher'', '' '')],
             [(''title'', ''Third''), (''description'', ''''), (''published date'', ''''),
              (''url'', ''https://example.org/third''), (''publisher'', '' '')]],
        [Feed_parse ''https://news.google.com/rss?&ceid=US:en&hl=en&gl=US'',
         Head_request ''https://news.google.com/rss/articles/1''])"
  by code_simp

lemma example_query_unfiltered:
  "priv_get_news example_world (GNews ''en'' ''US'' 1 None None)
       ''https://news.google.com/rss?&ceid=US:en&hl=en&gl=US'' []
     = (Inr [[(''title'', ''First''), (''description'', ''''), (''published date'', ''''),
              (''url'', ''https://news.google.com/rss/articles/1''), (''publisher'', '' '')],
             [(''title'', ''Second''), (''description'', ''''), (''published date'', ''''),
              (''url'', ''https://www.example.com/second''), (''publisher'', '' '')],
             [(''title'', ''Third''), (''description'', ''''), (''published date'', ''''),
              (''url'', ''https://example.org/third''), (''publisher'', '' '')]],
        [Feed_parse ''https://news.google.com/rss?&ceid=US:en&hl=en&gl=US'',
         Head_request ''https://news.google.com/rss/articles/1''])"
  by code_simp

section \<open>Theorems\<close>

subsection \<open>The website filter\<close>

text \<open>
  C1, as stated, fails on both sides. A URL whose host only begins with a configured
  hostname is blocked: with \<^verbatim>\<open>example.com\<close> excluded, \<^verbatim>\<open>http://example.community/news\<close>
  is not allowed. And a URL whose host is the configured hostname is allowed when the
  hostname is written with a capital letter: the pattern holds the hostname in lower
  case and is matched as it is.
\<close>

theorem excluded_websites_counterexample:
  "is_allowed_website ''http://example.community/news''
     (self_exclude_website_regexes (GNews ''en'' ''US'' 100 None (Some [''example.com'']))) = Inr False
   \<and> is_allowed_website ''http://Example.com/news''
     (self_exclude_website_regexes (GNews ''en'' ''US'' 100 None (Some [''Example.com'']))) = Inr True"
  by code_simp

text \<open>
  C1, amended: for exclusion hostnames written with letters, digits, hyphens and dots,
  every URL that is \<^verbatim>\<open>http://\<close> or \<^verbatim>\<open>https://\<close>, then nothing or \<^verbatim>\<open>www.\<close>, then a
  configured hostname \<open>H\<close> in lower case, then anything, is not allowed; and a URL is
  allowed when for no configured \<open>H\<close> it has the form \<^verbatim>\<open>http://\<close> or \<^verbatim>\<open>https://\<close>, nothing
  or \<^verbatim>\<open>www\<close> and one more character, a text that agrees with \<open>H\<close> in lower case at every
  character of \<open>H\<close> that is not a dot, then anything.
\<close>

theorem excluded_websites_filter:
  assumes "list_all (list_all hostname_char) exclude_websites"
  shows "(H \<in> set exclude_websites \<and> (scheme = ''http://'' \<or> scheme = ''https://'')
            \<and> (www = [] \<or> www = ''www.'')
          \<longrightarrow> is_allowed_website (scheme @ www @ str_lower H @ rest)
                (self_exclude_website_regexes
                   (GNews language country max_results period (Some exclude_websites))) = Inr False)
       \<and> (list_all (\<lambda>H. \<not> excluded_form (str_lower H) U) exclude_websites
          \<longrightarrow> is_allowed_website U
                (self_exclude_website_regexes
                   (GNews language country max_results period (Some exclude_websites))) = Inr True)"
proof (intro conjI impI)
  assume "H \<in> set exclude_websites \<and> (scheme = ''http://'' \<or> scheme = ''https://'')
            \<and> (www = [] \<or> www = ''www.'')"
  then have "H \<in> set exclude_websites"
    and "url_excluded (str_lower H) (scheme @ www @ str_lower H @ rest)"
    using url_excluded_literal by blast+
  then have "\<not> list_all (\<lambda>website. \<not> url_excluded (str_lower website) (scheme @ www @ str_lower H @ rest))
               exclude_websites"
    unfolding list_all_iff by blast
  then show "is_allowed_website (scheme @ www @ str_lower H @ rest)
                (self_exclude_website_regexes
                   (GNews language country max_results period (Some exclude_websites))) = Inr False"
    by (simp add: GNews_regexes is_allowed_website_exclude_regex [OF assms])
next
  assume "list_all (\<lambda>H. \<not> excluded_form (str_lower H) U) exclude_websites"
  then have "list_all (\<lambda>website. \<not> url_excluded (str_lower website) U) exclude_websites"
    unfolding list_all_iff using url_excluded_form by blast
  then show "is_allowed_website U
                (self_exclude_website_regexes
                   (GNews language country max_results period (Some exclude_websites))) = Inr True"
    by (simp add: GNews_regexes is_allowed_website_exclude_regex [OF assms])
qed

theorem excluded_websites_filter_witness:
  "list_all (list_all hostname_char) [''Example.com'']
   \<and> \<not> excluded_form (str_lower ''Example.com'') ''https://www.example.org/news''
   \<and> is_allowed_website ''https://www.example.com/news''
        (self_exclude_website_regexes (GNews ''en'' ''US'' 100 None (Some [''Example.com'']))) = Inr False
   \<and> is_allowed_website ''https://www.example.org/news''
        (self_exclude_website_regexes (GNews ''en'' ''US'' 100 None (Some [''Example.com'']))) = Inr True"
  using excluded_websites_filter [OF hostname_example, of "''Example.com''" "''https://''" "''www.''"
          "''/news''" "''en''" "''US''" 100 None "''https://www.example.org/news''"]
        hostname_example not_excluded_form_example
  by (simp add: lower_example)




text \<open>
  C6: every news item that \<^verbatim>\<open>_get_news\<close> returns has a \<^verbatim>\<open>url\<close> that
  \<^verbatim>\<open>is_allowed_website\<close> accepts against the exclusion patterns of the configuration.
\<close>

theorem get_news_only_allowed:
  assumes "priv_get_news w self url tr = (Inr news, tr')"
  shows "list_all (passes_filter self) news"
  using assms priv_get_news_loop_allowed [of w self "feedparser_entries w tr url" "[]" "tr @ [Feed_parse url]" news tr']
  by (simp add: priv_get_news_def)

theorem get_news_only_allowed_witness:
  "priv_get_news example_world example_config ''https://news.google.com/rss?&ceid=US:en&hl=en&gl=US'' []
     = (Inr [[(''title'', ''First''), (''description'', ''''), (''published date'', ''''),
              (''url'', ''https://news.google.com/rss/articles/1''), (''publisher'', '' '')],
             [(''title'', ''Third''), (''description'', ''''), (''published date'', ''''),
              (''url'', ''https://example.org/third''), (''publisher'', '' '')]],
        [Feed_parse ''https://news.google.com/rss?&ceid=US:en&hl=en&gl=US'',
         Head_request ''https://news.google.com/rss/articles/1''])
   \<and> list_all (passes_filter example_config)
        [[(''title'', ''First''), (''description'', ''''), (''published date'', ''''),
          (''url'', ''https://news.google.com/rss/articles/1''), (''publisher'', '' '')],
         [(''title'', ''Third''), (''description'', ''''), (''published date'', ''''),
          (''url'', ''https://example.org/third''), (''publisher'', '' '')]]"
  using get_news_only_allowed [OF example_query] example_query
  by simp

subsection \<open>The request URLs\<close>

text \<open>
  C2, as stated, fails: with the period \<^verbatim>\<open>7d\<close>, language \<^verbatim>\<open>en\<close> and country \<^verbatim>\<open>US\<close> the
  suffix is \<^verbatim>\<open>when%3A7d&ceid=US:en&hl=en&gl=US\<close>, with the colon after \<^verbatim>\<open>when\<close>
  percent-encoded, and not \<^verbatim>\<open>when:7d&ceid=US:en&hl=en&gl=US\<close>.
\<close>

theorem ceid_period_counterexample:
  "priv_ceid (GNews ''en'' ''US'' 100 (Some ''7d'') None) = ''when%3A7d&ceid=US:en&hl=en&gl=US''
   \<and> priv_ceid (GNews ''en'' ''US'' 100 (Some ''7d'') None) \<noteq> ''when:7d&ceid=US:en&hl=en&gl=US''"
  by (simp add: priv_ceid_def GNews_def truthy_def)

text \<open>
  C2, amended: when the period is set to a non-empty string \<open>p\<close>, the suffix is exactly
  \<^verbatim>\<open>when%3A<p>&ceid=<country>:<language>&hl=<language>&gl=<country>\<close>; when no period is set
  (\<^verbatim>\<open>None\<close>, or the empty string) it is exactly
  \<^verbatim>\<open>&ceid=<country>:<language>&hl=<language>&gl=<country>\<close>.
\<close>

theorem ceid_suffix:
  "(p \<noteq> [] \<longrightarrow>
      priv_ceid (self\<lparr>self_period := Some p\<rparr>) =
        ''when%3A'' @ p @ ''&ceid='' @ self_country self @ '':'' @ self_language self
          @ ''&hl='' @ self_language self @ ''&gl='' @ self_country self)
   \<and> (period = None \<or> period = Some [] \<longrightarrow>
      priv_ceid (self\<lparr>self_period := period\<rparr>) =
        ''&ceid='' @ self_country self @ '':'' @ self_language self
          @ ''&hl='' @ self_language self @ ''&gl='' @ self_country self)"
  by (auto simp add: priv_ceid_def truthy_def)

theorem ceid_suffix_witness:
  "''7d'' \<noteq> [] \<and> (None :: string option) = None
   \<and> priv_ceid (GNews ''en'' ''US'' 100 (Some ''7d'') None) = ''when%3A7d&ceid=US:en&hl=en&gl=US''
   \<and> priv_ceid (GNews ''en'' ''US'' 100 None None) = ''&ceid=US:en&hl=en&gl=US''"
  using ceid_suffix [of "''7d''" "GNews ''en'' ''US'' 100 None None" None]
  by (simp add: GNews_def)

text \<open>
  C8: for a non-empty search term, \<^verbatim>\<open>get_news\<close> parses the feed at the base URL, then
  \<^verbatim>\<open>/search?q=\<close>, then the term with every space replaced by \<^verbatim>\<open>%20\<close> and every other
  character kept, then the locale suffix; no space is left in the encoded term. For
  \<^verbatim>\<open>climate change\<close> the path segment is \<^verbatim>\<open>/search?q=climate%20change\<close>.
\<close>

theorem get_news_search_url:
  assumes "key \<noteq> []"
  shows "(\<exists>r evs. get_news w self key tr =
           (r, tr @ Feed_parse (self_BASE_URL self @ ''/search?q=''
                      @ concat (map (\<lambda>c. if c = CHR '' '' then ''%20'' else [c]) key)
                      @ priv_ceid self) # evs))
       \<and> CHR '' '' \<notin> set (concat (map (\<lambda>c. if c = CHR '' '' then ''%20'' else [c]) key))"
proof -
  let ?url = "self_BASE_URL self @ ''/search?q=''
                @ concat (map (\<lambda>c. if c = CHR '' '' then ''%20'' else [c]) key) @ priv_ceid self"
  obtain r evs where "priv_get_news w self ?url tr = (r, tr @ Feed_parse ?url # evs)"
    using priv_get_news_trace by blast
  with assms have "\<exists>r evs. get_news w self key tr = (r, tr @ Feed_parse ?url # evs)"
    by (cases r) (auto simp add: get_news_def str_join_split)
  moreover have "CHR '' '' \<notin> set (concat (map (\<lambda>c. if c = CHR '' '' then ''%20'' else [c]) key))"
    by (induction key) auto
  ultimately show ?thesis by blast
qed

theorem get_news_search_url_witness:
  "''climate change'' \<noteq> []
   \<and> (\<exists>r evs. get_news example_world (GNews ''en'' ''US'' 100 None None) ''climate change'' [] =
         (r, Feed_parse ''https://news.google.com/rss/search?q=climate%20change&ceid=US:en&hl=en&gl=US''
               # evs))"
  using get_news_search_url [of "''climate change''" example_world "GNews ''en'' ''US'' 100 None None" "[]"]
  by (simp add: GNews_def priv_ceid_def truthy_def)

subsection \<open>Invalid input\<close>

text \<open>
  C5, on the code: with the empty search term \<^verbatim>\<open>get_news\<close> sends nothing and raises
  nothing, but what it returns is \<^verbatim>\<open>None\<close>, not an empty sequence.
\<close>

theorem get_news_empty_key: "get_news w self [] tr = (Inr None, tr)"
  by (simp add: get_news_def)



subsection \<open>Resolving the links\<close>

text \<open>
  C10: \<^verbatim>\<open>_get_url\<close> sends a HEAD request, to the entry's link, exactly when
  \<^verbatim>\<open>news.google.com\<close> occurs in the link, wherever it stands; and an entry without a
  link yields the empty string, with no request.
\<close>

theorem get_url_resolution:
  "snd (priv_get_url w item tr) =
     (if str_contains ''news.google.com'' (dict_get item ''link'' '''')
      then tr @ [Head_request (dict_get item ''link'' '''')] else tr)
   \<and> (str_contains ''news.google.com'' link \<longleftrightarrow> (\<exists>ps ss. link = ps @ ''news.google.com'' @ ss))
   \<and> (item ''link'' = None \<longrightarrow> priv_get_url w item tr = (Inr [], tr))"
proof -
  have "snd (priv_get_url w item tr) =
     (if str_contains ''news.google.com'' (dict_get item ''link'' '''')
      then tr @ [Head_request (dict_get item ''link'' '''')] else tr)"
    by (simp add: priv_get_url_def Let_def split: head_result.split)
  moreover have "item ''link'' = None \<longrightarrow> priv_get_url w item tr = (Inr [], tr)"
    by (simp add: priv_get_url_def dict_get_def)
  ultimately show ?thesis
    using str_contains_iff [of "''news.google.com''" link] by blast
qed

theorem get_url_resolution_witness:
  "str_contains ''news.google.com'' ''https://example.com/a/news.google.com/b''
   \<and> snd (priv_get_url example_world [''link'' \<mapsto> ''https://example.com/a/news.google.com/b''] [])
       = [Head_request ''https://example.com/a/news.google.com/b'']
   \<and> priv_get_url example_world [''title'' \<mapsto> ''no link''] [] = (Inr [], [])"
  using get_url_resolution [of example_world "[''link'' \<mapsto> ''https://example.com/a/news.google.com/b'']" "[]"
          "''https://example.com/a/news.google.com/b''"]
        get_url_resolution [of example_world "[''title'' \<mapsto> ''no link'']" "[]" "[]"]
  by (simp add: dict_get_def)




subsection \<open>The size of the result\<close>

text \<open>
  C9: \<^verbatim>\<open>max_results\<close> is stored and never read: the four queries return the same under
  any two configurations that differ in \<^verbatim>\<open>max_results\<close> only, and the result is not cut
  to that size: without exclusion patterns, a query that returns has one news item for
  every entry of the feed.
\<close>

theorem max_results_not_enforced:
  "get_news w (set_max_results self m) key tr = get_news w self key tr
   \<and> get_top_news w (set_max_results self m) tr = get_top_news w self tr
   \<and> get_news_by_topic w (set_max_results self m) topic tr = get_news_by_topic w self topic tr
   \<and> get_news_by_location w (set_max_results self m) location tr = get_news_by_location w self location tr
   \<and> (self_exclude_website_regexes self = [] \<and> priv_get_news w self url tr = (Inr news, tr')
        \<longrightarrow> length news = length (feedparser_entries w tr url))"
proof -
  have "self_exclude_website_regexes self = [] \<and> priv_get_news w self url tr = (Inr news, tr')
        \<longrightarrow> length news = length (feedparser_entries w tr url)"
    using priv_get_news_loop_no_exclusion [of self w "feedparser_entries w tr url" "[]" "tr @ [Feed_parse url]" news tr']
    by (simp add: priv_get_news_def)
  then show ?thesis
    by (simp add: set_max_results_def get_news_def get_top_news_def get_news_by_topic_def
        get_news_by_location_def priv_ceid_max_results priv_get_news_max_results Let_def)
qed

theorem max_results_not_enforced_witness:
  "self_max_results (GNews ''en'' ''US'' 1 None None) = 1
   \<and> self_exclude_website_regexes (GNews ''en'' ''US'' 1 None None) = []
   \<and> priv_get_news example_world (GNews ''en'' ''US'' 1 None None)
        ''https://news.google.com/rss?&ceid=US:en&hl=en&gl=US'' []
      = (Inr [[(''title'', ''First''), (''description'', ''''), (''published date'', ''''),
               (''url'', ''https://news.google.com/rss/articles/1''), (''publisher'', '' '')],
              [(''title'', ''Second''), (''description'', ''''), (''published date'', ''''),
               (''url'', ''https://www.example.com/second''), (''publisher'', '' '')],
              [(''title'', ''Third''), (''description'', ''''), (''published date'', ''''),
               (''url'', ''https://example.org/third''), (''publisher'', '' '')]],
         [Feed_parse ''https://news.google.com/rss?&ceid=US:en&hl=en&gl=US'',
          Head_request ''https://news.google.com/rss/articles/1''])
   \<and> length (feedparser_entries example_world [] ''https://news.google.com/rss?&ceid=US:en&hl=en&gl=US'') = 3
   \<and> get_top_news example_world (set_max_results (GNews ''en'' ''US'' 1 None None) 100) []
      = get_top_news example_world (GNews ''en'' ''US'' 1 None None) []"
proof -
  have entries: "length (feedparser_entries example_world []
                   ''https://news.google.com/rss?&ceid=US:en&hl=en&gl=US'') = 3"
    by (simp add: example_world_def example_entries_def)
  have none: "self_exclude_website_regexes (GNews ''en'' ''US'' 1 None None) = []"
    by (simp add: GNews_def)
  from max_results_not_enforced [of example_world "GNews ''en'' ''US'' 1 None None" 100 "[]" "[]" "[]" "[]"
      "''https://news.google.com/rss?&ceid=US:en&hl=en&gl=US''"
      "[[(''title'', ''First''), (''description'', ''''), (''published date'', ''''),
         (''url'', ''https://news.google.com/rss/articles/1''), (''publisher'', '' '')],
        [(''title'', ''Second''), (''description'', ''''), (''published date'', ''''),
         (''url'', ''https://www.example.com/second''), (''publisher'', '' '')],
        [(''title'', ''Third''), (''description'', ''''), (''published date'', ''''),
         (''url'', ''https://example.org/third''), (''publisher'', '' '')]]"
      "[Feed_parse ''https://news.google.com/rss?&ceid=US:en&hl=en&gl=US'',
        Head_request ''https://news.google.com/rss/articles/1'']"]
    example_query_unfiltered entries none
  show ?thesis
    by (simp add: GNews_def)
qed

end
